theory Spec2Isabelle
  imports Main "HOL-Library.Word"
begin

section \<open>JavaScript values and strings\<close>

text \<open>
  A JavaScript string is a sequence of UTF-16 code units; \<open>length\<close> counts code units,
  and the regular expressions of \<open>sanitizeMessage\<close> (no \<open>u\<close> flag) match one code unit
  each. \<open>ascii\<close> writes an ASCII literal as code units.
\<close>

type_synonym js_string = "16 word list"

definition ascii :: "string \<Rightarrow> js_string" where
  "ascii s = map (\<lambda>c. of_nat (of_char c)) s"

text \<open>
  The values a caller can pass where the code tests \<open>typeof\<close> and truthiness. Numbers are
  the integers (no NaN, no fractions); \<open>JObject\<close> is an object or array with its own
  enumerable properties.
\<close>

datatype js_value =
    JUndefined
  | JNull
  | JBool bool
  | JNum int
  | JStr js_string
  | JObject "(js_string \<times> js_value) list"

fun typeof :: "js_value \<Rightarrow> string" where
  "typeof JUndefined = ''undefined''"
| "typeof JNull = ''object''"
| "typeof (JBool b) = ''boolean''"
| "typeof (JNum n) = ''number''"
| "typeof (JStr s) = ''string''"
| "typeof (JObject fs) = ''object''"

text \<open>\<open>truthy v\<close> is JavaScript's ToBoolean, so \<open>!v\<close> is \<open>\<not> truthy v\<close>.\<close>

fun truthy :: "js_value \<Rightarrow> bool" where
  "truthy JUndefined = False"
| "truthy JNull = False"
| "truthy (JBool b) = b"
| "truthy (JNum n) = (n \<noteq> 0)"
| "truthy (JStr s) = (s \<noteq> [])"
| "truthy (JObject fs) = True"

text \<open>The code units of a string value (only read after \<open>typeof v = ''string''\<close>).\<close>

fun str_of :: "js_value \<Rightarrow> js_string" where
  "str_of (JStr s) = s"
| "str_of _ = []"

text \<open>
  Property read \<open>v.k\<close> on a truthy value: an own property of an object, otherwise
  \<open>undefined\<close> (the primitives have no property of the names read here).
\<close>

fun get_prop :: "js_value \<Rightarrow> js_string \<Rightarrow> js_value" where
  "get_prop (JObject fs) k = (case map_of fs k of Some v \<Rightarrow> v | None \<Rightarrow> JUndefined)"
| "get_prop _ k = JUndefined"

subsection \<open>String.prototype.trim and String.prototype.replace\<close>

text \<open>
  The code units \<open>trim\<close> strips: ECMAScript WhiteSpace (TAB, VT, FF, ZWNBSP and the
  space separators) and LineTerminator (LF, CR, LS, PS).
\<close>

definition is_ws :: "16 word \<Rightarrow> bool" where
  "is_ws c \<longleftrightarrow>
     c = 0x0009 \<or> c = 0x000A \<or> c = 0x000B \<or> c = 0x000C \<or> c = 0x000D \<or> c = 0x0020 \<or>
     c = 0x00A0 \<or> c = 0x1680 \<or> (0x2000 \<le> c \<and> c \<le> 0x200A) \<or> c = 0x2028 \<or>
     c = 0x2029 \<or> c = 0x202F \<or> c = 0x205F \<or> c = 0x3000 \<or> c = 0xFEFF"

definition trimStart :: "js_string \<Rightarrow> js_string" where
  "trimStart s = dropWhile is_ws s"

definition trimEnd :: "js_string \<Rightarrow> js_string" where
  "trimEnd s = rev (dropWhile is_ws (rev s))"

definition trim :: "js_string \<Rightarrow> js_string" where
  "trim s = trimEnd (trimStart s)"

text \<open>
  \<open>s.replace(/c/g, r)\<close> for a pattern of one literal code unit: every occurrence of
  \<open>c\<close>, left to right, becomes \<open>r\<close>; the replacement text is not scanned again.
\<close>

definition replace_g :: "16 word \<Rightarrow> js_string \<Rightarrow> js_string \<Rightarrow> js_string" where
  "replace_g c r s = concat (map (\<lambda>x. if x = c then r else [x]) s)"

section \<open>EventService.sanitizeMessage\<close>

definition sanitizeMessage :: "js_value \<Rightarrow> js_string" where
  "sanitizeMessage message =
     (if typeof message \<noteq> ''string'' then []
      else trim
        (replace_g 0x2F (ascii ''&#x2F;'')
        (replace_g 0x27 (ascii ''&#x27;'')
        (replace_g 0x22 (ascii ''&quot;'')
        (replace_g 0x3E (ascii ''&gt;'')
        (replace_g 0x3C (ascii ''&lt;'')
        (replace_g 0x26 (ascii ''&amp;'') (str_of message))))))))"


text \<open>
  What the claims say of an escaped message: none of the five literal characters
  \<open><\<close>, \<open>>\<close>, \<open>"\<close>, \<open>'\<close>, \<open>/\<close> occurs, and every \<open>&\<close> is the first code unit of one of the
  six entities the substitutions write.
\<close>

definition no_markup :: "js_string \<Rightarrow> bool" where
  "no_markup s \<longleftrightarrow>
     0x3C \<notin> set s \<and> 0x3E \<notin> set s \<and> 0x22 \<notin> set s \<and> 0x27 \<notin> set s \<and> 0x2F \<notin> set s"

definition entities :: "js_string list" where
  "entities =
     [ascii ''&amp;'', ascii ''&lt;'', ascii ''&gt;'', ascii ''&quot;'', ascii ''&#x27;'',
      ascii ''&#x2F;'']"

definition starts_with :: "js_string \<Rightarrow> js_string \<Rightarrow> bool" where
  "starts_with e s \<longleftrightarrow> take (length e) s = e"

fun amp_escaped :: "js_string \<Rightarrow> bool" where
  "amp_escaped [] = True"
| "amp_escaped (c # cs) =
     ((if c = 0x26 then list_ex (\<lambda>e. starts_with e (c # cs)) entities else True) \<and>
      amp_escaped cs)"

definition trimmed :: "js_string \<Rightarrow> bool" where
  "trimmed s \<longleftrightarrow> (s \<noteq> [] \<longrightarrow> \<not> is_ws (hd s) \<and> \<not> is_ws (last s))"

section \<open>Configuration\<close>

text \<open>
  \<open>config/config.js\<close>: the three environments agree on the two fields the services read.
\<close>

record app_config =
  maxEventMessageLength :: nat
  supportedTenants :: "js_string list"

definition config :: app_config where
  "config = \<lparr>maxEventMessageLength = 500,
             supportedTenants = [ascii ''tenant_a'', ascii ''tenant_b'']\<rparr>"

section \<open>Events, errors and the state of the two services\<close>

text \<open>
  The object \<open>createEvent\<close> builds. \<open>tenant_id\<close> is the caller's value as it was passed.
  The field \<open>id\<close> is \<open>event_id\<close> here (\<open>id\<close> is the identity function of HOL); and since
  \<open>message\<close> is the field's name, a parameter called \<open>message\<close> in the source is \<open>msg\<close> in
  \<open>createEvent\<close> and \<open>validateEventData\<close>.
\<close>

record event =
  event_id :: js_string
  tenant_id :: js_value
  message :: js_string
  timestamp :: js_string

text \<open>
  Every \<open>throw new Error(...)\<close> and every string pushed by \<open>validateEventData\<close>, by its
  text:
  \<^item> \<open>InvalidTenant t\<close>: "Invalid tenant: t";
  \<^item> \<open>MessageRequired\<close>: "Message is required and must be a string";
  \<^item> \<open>MessageTooLong n\<close>: "Message exceeds maximum length of n characters";
  \<^item> \<open>EventDataRequired\<close>: "Event data is required";
  \<^item> \<open>MessageEmpty\<close>: "Message cannot be empty";
  \<^item> \<open>TypeError\<close>: the runtime's error for a method call on \<open>undefined\<close>, when the Map
    has no entry for the tenant.
\<close>

datatype error =
    InvalidTenant js_value
  | MessageRequired
  | MessageTooLong nat
  | EventDataRequired
  | MessageEmpty
  | TypeError

text \<open>
  \<open>tenantEvents\<close> is the Map of the TenantService singleton; \<open>emitted\<close> records, oldest
  first, the payloads of \<open>this.emit('eventCreated', ...)\<close> of the EventService singleton
  (the listeners themselves are not part of the model).
\<close>

record state =
  tenantEvents :: "js_value \<rightharpoonup> event list"
  emitted :: "(js_value \<times> event) list"

text \<open>The TenantService constructor: an empty array for each configured tenant.\<close>

definition init_state :: state where
  "init_state =
     \<lparr>tenantEvents = foldl (\<lambda>m tenantId. m(JStr tenantId \<mapsto> [])) Map.empty (supportedTenants config),
      emitted = []\<rparr>"

section \<open>TenantService\<close>

definition isValidTenant :: "js_value \<Rightarrow> bool" where
  "isValidTenant tenantId =
     (if \<not> truthy tenantId \<or> typeof tenantId \<noteq> ''string'' then False
      else str_of tenantId \<in> set (supportedTenants config))"

definition MAX_EVENTS_PER_TENANT :: nat where
  "MAX_EVENTS_PER_TENANT = 1000"

text \<open>
  \<open>unshift\<close> puts the event at index 0; \<open>splice(MAX)\<close> deletes everything from index
  \<open>MAX\<close> on. The result \<open>true\<close> is left out: the updated state is returned.
\<close>

definition addEvent :: "state \<Rightarrow> js_value \<Rightarrow> event \<Rightarrow> error + state" where
  "addEvent s tenantId ev =
     (if \<not> isValidTenant tenantId then Inl (InvalidTenant tenantId)
      else case tenantEvents s tenantId of
             None \<Rightarrow> Inl TypeError
           | Some evs \<Rightarrow>
               let evs1 = ev # evs;
                   evs2 = (if length evs1 > MAX_EVENTS_PER_TENANT
                           then take MAX_EVENTS_PER_TENANT evs1 else evs1)
               in Inr (s\<lparr>tenantEvents := (tenantEvents s)(tenantId \<mapsto> evs2)\<rparr>))"

text \<open>
  The \<open>limit\<close> argument as the callers of this repository pass it: omitted, \<open>null\<close>, or an
  integer number.
\<close>

datatype js_limit = LimitUndefined | LimitNull | LimitNum int

fun truthy_limit :: "js_limit \<Rightarrow> bool" where
  "truthy_limit LimitUndefined = False"
| "truthy_limit LimitNull = False"
| "truthy_limit (LimitNum n) = (n \<noteq> 0)"

text \<open>
  \<open>xs.slice(0, e)\<close> for an integer \<open>e\<close>: a negative end counts from the end of the array,
  and the end is clamped to the length.
\<close>

definition slice0 :: "'a list \<Rightarrow> int \<Rightarrow> 'a list" where
  "slice0 xs e =
     (let len = int (length xs);
          final = (if e < 0 then max (len + e) 0 else min e len)
      in take (nat final) xs)"

definition getEvents :: "state \<Rightarrow> js_value \<Rightarrow> js_limit \<Rightarrow> error + event list" where
  "getEvents s tenantId limit0 =
     (let limit = (if limit0 = LimitUndefined then LimitNull else limit0)
      in if \<not> isValidTenant tenantId then Inl (InvalidTenant tenantId)
         else case tenantEvents s tenantId of
                None \<Rightarrow> Inl TypeError
              | Some events \<Rightarrow>
                  (case limit of
                     LimitNum n \<Rightarrow> if truthy_limit limit then Inr (slice0 events n) else Inr events
                   | _ \<Rightarrow> Inr events))"

definition getEventCount :: "state \<Rightarrow> js_value \<Rightarrow> error + nat" where
  "getEventCount s tenantId =
     (if \<not> isValidTenant tenantId then Inr 0
      else case tenantEvents s tenantId of
             None \<Rightarrow> Inl TypeError
           | Some evs \<Rightarrow> Inr (length evs))"

definition getSupportedTenants :: "js_string list" where
  "getSupportedTenants = supportedTenants config"

definition clearTenantEvents :: "state \<Rightarrow> js_value \<Rightarrow> error + state" where
  "clearTenantEvents s tenantId =
     (if \<not> isValidTenant tenantId then Inl (InvalidTenant tenantId)
      else Inr (s\<lparr>tenantEvents := (tenantEvents s)(tenantId \<mapsto> [])\<rparr>))"

section \<open>EventService\<close>

text \<open>
  \<open>uuid\<close> and \<open>now\<close> are what \<open>uuidv4()\<close> and \<open>new Date().toISOString()\<close> return in this
  call. The result is the event and the state after the call.
\<close>

definition createEvent ::
  "state \<Rightarrow> js_value \<Rightarrow> js_value \<Rightarrow> js_string \<Rightarrow> js_string \<Rightarrow> error + (event \<times> state)" where
  "createEvent s tenantId msg uuid now =
     (if \<not> isValidTenant tenantId then Inl (InvalidTenant tenantId)
      else if \<not> truthy msg \<or> typeof msg \<noteq> ''string'' then Inl MessageRequired
      else if length (str_of msg) > maxEventMessageLength config
        then Inl (MessageTooLong (maxEventMessageLength config))
      else
        let ev = \<lparr>event_id = uuid, tenant_id = tenantId, message = trim (str_of msg),
                  timestamp = now\<rparr>
        in case addEvent s tenantId ev of
             Inl e \<Rightarrow> Inl e
           | Inr s1 \<Rightarrow> Inr (ev, s1\<lparr>emitted := emitted s1 @ [(tenantId, ev)]\<rparr>))"

text \<open>The default parameter \<open>limit = 50\<close> applies when the argument is \<open>undefined\<close>.\<close>

definition getEventsByTenant :: "state \<Rightarrow> js_value \<Rightarrow> js_limit \<Rightarrow> error + event list" where
  "getEventsByTenant s tenantId limit0 =
     getEvents s tenantId (if limit0 = LimitUndefined then LimitNum 50 else limit0)"

record validation =
  isValid :: bool
  errors :: "error list"

definition validateEventData :: "js_value \<Rightarrow> validation" where
  "validateEventData eventData =
     (if \<not> truthy eventData then \<lparr>isValid = False, errors = [EventDataRequired]\<rparr>
      else
        let msg = get_prop eventData (ascii ''message'');
            errs =
              (if \<not> truthy msg \<or> typeof msg \<noteq> ''string'' then [MessageRequired]
               else if length (str_of msg) > maxEventMessageLength config
                 then [MessageTooLong (maxEventMessageLength config)]
               else if length (trim (str_of msg)) = 0 then [MessageEmpty]
               else [])
        in \<lparr>isValid = (length errs = 0), errors = errs\<rparr>)"

record stats =
  totalEvents :: nat
  tenantStats :: "js_string \<rightharpoonup> nat"

text \<open>The \<open>for ... of\<close> loop of \<open>getEventStats\<close> over the tenants still to visit.\<close>

fun statsLoop :: "state \<Rightarrow> js_string list \<Rightarrow> stats \<Rightarrow> error + stats" where
  "statsLoop s [] st = Inr st"
| "statsLoop s (tenantId # rest) st =
     (case getEventCount s (JStr tenantId) of
        Inl e \<Rightarrow> Inl e
      | Inr count \<Rightarrow>
          statsLoop s rest
            (st\<lparr>tenantStats := (tenantStats st)(tenantId \<mapsto> count),
                totalEvents := totalEvents st + count\<rparr>))"

definition getEventStats :: "state \<Rightarrow> error + stats" where
  "getEventStats s = statsLoop s getSupportedTenants \<lparr>totalEvents = 0, tenantStats = Map.empty\<rparr>"

section \<open>Sequences of calls\<close>

text \<open>
  The calls that change the state. A call that throws leaves the state as it was: each of
  the three throws before it writes.
\<close>

datatype call =
    AddEvent js_value event
  | ClearTenantEvents js_value
  | CreateEvent js_value js_value js_string js_string

fun step :: "state \<Rightarrow> call \<Rightarrow> state" where
  "step s (AddEvent t ev) = (case addEvent s t ev of Inl e \<Rightarrow> s | Inr s1 \<Rightarrow> s1)"
| "step s (ClearTenantEvents t) = (case clearTenantEvents s t of Inl e \<Rightarrow> s | Inr s1 \<Rightarrow> s1)"
| "step s (CreateEvent t m uuid now) =
     (case createEvent s t m uuid now of Inl e \<Rightarrow> s | Inr (ev, s1) \<Rightarrow> s1)"

definition run :: "state \<Rightarrow> call list \<Rightarrow> state" where
  "run s calls = foldl step s calls"

text \<open>
  \<open>createAll s t reqs\<close>: one \<open>createEvent\<close> call for tenant \<open>t\<close> per request (message,
  uuid, time), in order, as the test suite makes them in a row; the first throw ends
  the sequence. Returns the created events in creation order and the final state.
\<close>

fun createAll ::
  "state \<Rightarrow> js_value \<Rightarrow> (js_value \<times> js_string \<times> js_string) list \<Rightarrow> error + (event list \<times> state)"
where
  "createAll s t [] = Inr ([], s)"
| "createAll s t ((m, uuid, now) # reqs) =
     (case createEvent s t m uuid now of
        Inl e \<Rightarrow> Inl e
      | Inr (ev, s1) \<Rightarrow>
          (case createAll s1 t reqs of
             Inl e \<Rightarrow> Inl e
           | Inr (evs, s2) \<Rightarrow> Inr (ev # evs, s2)))"

section \<open>Auxiliary definitions for the proofs\<close>

text \<open>
  \<open>escape_chain\<close> is the chain of six \<open>replace\<close> calls of \<open>sanitizeMessage\<close>, before
  \<open>trim\<close>; \<open>esc1\<close> is what the chain makes of one code unit.
\<close>

definition esc1 :: "16 word \<Rightarrow> js_string" where
  "esc1 c =
     (if c = 0x26 then ascii ''&amp;''
      else if c = 0x3C then ascii ''&lt;''
      else if c = 0x3E then ascii ''&gt;''
      else if c = 0x22 then ascii ''&quot;''
      else if c = 0x27 then ascii ''&#x27;''
      else if c = 0x2F then ascii ''&#x2F;''
      else [c])"

definition escape_chain :: "js_string \<Rightarrow> js_string" where
  "escape_chain s =
     replace_g 0x2F (ascii ''&#x2F;'')
       (replace_g 0x27 (ascii ''&#x27;'')
       (replace_g 0x22 (ascii ''&quot;'')
       (replace_g 0x3E (ascii ''&gt;'')
       (replace_g 0x3C (ascii ''&lt;'')
       (replace_g 0x26 (ascii ''&amp;'') s)))))"

text \<open>
  \<open>well_formed\<close>: the Map has an entry for every valid tenant (the constructor puts it
  there, nothing deletes it). \<open>capped\<close>: no array is longer than the cap.
  \<open>mk_event\<close>: the event \<open>createEvent\<close> builds from a request.
\<close>

definition well_formed :: "state \<Rightarrow> bool" where
  "well_formed s \<longleftrightarrow> (\<forall>t. isValidTenant t \<longrightarrow> tenantEvents s t \<noteq> None)"

definition capped :: "state \<Rightarrow> bool" where
  "capped s \<longleftrightarrow> (\<forall>t evs. tenantEvents s t = Some evs \<longrightarrow> length evs \<le> MAX_EVENTS_PER_TENANT)"

definition mk_event :: "js_value \<Rightarrow> js_value \<times> js_string \<times> js_string \<Rightarrow> event" where
  "mk_event t r = (case r of (m, uuid, now) \<Rightarrow>
     \<lparr>event_id = uuid, tenant_id = t, message = trim (str_of m), timestamp = now\<rparr>)"

text \<open>A message \<open>createEvent\<close> accepts: a non-empty string within the length bound.\<close>

definition acceptable :: "js_value \<Rightarrow> bool" where
  "acceptable m \<longleftrightarrow>
     typeof m = ''string'' \<and> str_of m \<noteq> [] \<and> length (str_of m) \<le> maxEventMessageLength config"

section \<open>Concrete inputs\<close>

text \<open>
  States and values the closed theorems below evaluate the code on: a candidate object
  with the one property \<open>message\<close>, and the states after one or two \<open>createEvent\<close> calls
  for tenant_a on the constructor's state.
\<close>

definition message_only :: "js_value \<Rightarrow> js_value" where
  "message_only m = JObject [(ascii ''message'', m)]"

definition ev1 :: event where
  "ev1 = \<lparr>event_id = ascii ''id1'', tenant_id = JStr (ascii ''tenant_a''),
          message = ascii ''m1'', timestamp = ascii ''t1''\<rparr>"

definition ev2 :: event where
  "ev2 = \<lparr>event_id = ascii ''id2'', tenant_id = JStr (ascii ''tenant_a''),
          message = ascii ''m2'', timestamp = ascii ''t2''\<rparr>"

definition one_event :: state where
  "one_event =
     run init_state
       [CreateEvent (JStr (ascii ''tenant_a'')) (JStr (ascii ''m1'')) (ascii ''id1'') (ascii ''t1'')]"

definition two_events :: state where
  "two_events =
     run init_state
       [CreateEvent (JStr (ascii ''tenant_a'')) (JStr (ascii ''m1'')) (ascii ''id1'') (ascii ''t1''),
        CreateEvent (JStr (ascii ''tenant_a'')) (JStr (ascii '' m2 '')) (ascii ''id2'') (ascii ''t2'')]"

definition script_event :: state where
  "script_event =
     run init_state
       [CreateEvent (JStr (ascii ''tenant_a'')) (JStr (ascii ''<script>x</script>''))
          (ascii ''id1'') (ascii ''t1'')]"

definition blank_event :: state where
  "blank_event =
     run init_state
       [CreateEvent (JStr (ascii ''tenant_a'')) (JStr (ascii ''   '')) (ascii ''id1'') (ascii ''t1'')]"

section \<open>Escaping and trimming\<close>

lemma replace_g_Nil [simp]: "replace_g c r [] = []"
  by (simp add: replace_g_def)

lemma replace_g_Cons: "replace_g c r (x # xs) = (if x = c then r else [x]) @ replace_g c r xs"
  by (simp add: replace_g_def)

lemma replace_g_append: "replace_g c r (xs @ ys) = replace_g c r xs @ replace_g c r ys"
  by (simp add: replace_g_def)

lemma escape_chain_Nil [simp]: "escape_chain [] = []"
  by (simp add: escape_chain_def)

lemma escape_chain_Cons: "escape_chain (c # s) = esc1 c @ escape_chain s"
  by (simp add: escape_chain_def esc1_def replace_g_Cons replace_g_append ascii_def)

lemma escape_chain_single_pass: "escape_chain s = concat (map esc1 s)"
  by (induction s) (simp_all add: escape_chain_Cons)

lemma sanitizeMessage_string: "sanitizeMessage (JStr s) = trim (escape_chain s)"
  by (simp add: sanitizeMessage_def escape_chain_def)

lemma sanitizeMessage_non_string: "typeof v \<noteq> ''string'' \<Longrightarrow> sanitizeMessage v = []"
  by (simp add: sanitizeMessage_def)

lemma no_markup_append: "no_markup (xs @ ys) \<longleftrightarrow> no_markup xs \<and> no_markup ys"
  by (auto simp: no_markup_def)

lemma no_markup_esc1: "no_markup (esc1 c)"
  by (simp add: no_markup_def esc1_def ascii_def)

lemma no_markup_escape_chain: "no_markup (escape_chain s)"
proof (induction s)
  case Nil
  then show ?case by (simp add: no_markup_def)
next
  case (Cons c s)
  then show ?case by (simp add: escape_chain_Cons no_markup_append no_markup_esc1)
qed

lemma set_trim_subset: "set (trim s) \<subseteq> set s"
proof
  fix x
  assume "x \<in> set (trim s)"
  then have "x \<in> set (dropWhile is_ws (rev (dropWhile is_ws s)))"
    by (simp add: trim_def trimStart_def trimEnd_def)
  then have "x \<in> set (rev (dropWhile is_ws s))"
    by (rule set_dropWhileD)
  then have "x \<in> set (dropWhile is_ws s)"
    by simp
  then show "x \<in> set s"
    by (rule set_dropWhileD)
qed

lemma no_markup_trim: "no_markup s \<Longrightarrow> no_markup (trim s)"
  using set_trim_subset [of s] by (auto simp: no_markup_def)

lemma amp_escaped_esc1_append: "amp_escaped rest \<Longrightarrow> amp_escaped (esc1 c @ rest)"
  by (simp add: esc1_def ascii_def entities_def starts_with_def)

lemma amp_escaped_escape_chain: "amp_escaped (escape_chain s)"
  by (induction s) (simp_all add: escape_chain_Cons amp_escaped_esc1_append)

lemma amp_escaped_dropWhile: "amp_escaped s \<Longrightarrow> amp_escaped (dropWhile P s)"
  by (induction s) auto

lemma trimEnd_Nil [simp]: "trimEnd [] = []"
  by (simp add: trimEnd_def)

lemma trimEnd_eq_Nil: "trimEnd s = [] \<longleftrightarrow> (\<forall>c\<in>set s. is_ws c)"
  by (simp add: trimEnd_def dropWhile_eq_Nil_conv)

lemma trimEnd_append:
  "trimEnd (xs @ ys) = (if \<forall>c\<in>set ys. is_ws c then trimEnd xs else xs @ trimEnd ys)"
  by (simp add: trimEnd_def dropWhile_append)

lemma trimEnd_keeps: "s \<noteq> [] \<Longrightarrow> \<not> is_ws (last s) \<Longrightarrow> trimEnd s = s"
  by (cases s rule: rev_cases) (simp_all add: trimEnd_def)

lemma starts_with_trimEnd:
  assumes "starts_with e s" "e \<noteq> []" "\<not> is_ws (last e)"
  shows "starts_with e (trimEnd s)"
proof -
  from assms(1) have "s = e @ drop (length e) s"
    by (metis append_take_drop_id starts_with_def)
  then obtain t where s: "s = e @ t" ..
  show ?thesis
    using assms(2,3) by (simp add: s trimEnd_append trimEnd_keeps starts_with_def)
qed

lemma entity_props: "e \<in> set entities \<Longrightarrow> e \<noteq> [] \<and> \<not> is_ws (last e)"
  by (auto simp: entities_def ascii_def is_ws_def)

lemma amp_escaped_trimEnd: "amp_escaped s \<Longrightarrow> amp_escaped (trimEnd s)"
proof (induction s)
  case Nil
  then show ?case by simp
next
  case (Cons c cs)
  have split: "trimEnd (c # cs) = (if \<forall>x\<in>set cs. is_ws x then trimEnd [c] else c # trimEnd cs)"
    using trimEnd_append [of "[c]" cs] by simp
  show ?case
  proof (cases "trimEnd (c # cs) = []")
    case True
    then show ?thesis by simp
  next
    case False
    then have shape: "trimEnd (c # cs) = c # trimEnd cs"
      using split by (auto simp: trimEnd_def split: if_splits)
    have tail: "amp_escaped (trimEnd cs)"
      using Cons by simp
    have "list_ex (\<lambda>e. starts_with e (c # trimEnd cs)) entities" if amp: "c = 0x26"
    proof -
      from Cons.prems amp obtain e where e: "e \<in> set entities" "starts_with e (c # cs)"
        by (auto simp: list_ex_iff)
      then have "starts_with e (trimEnd (c # cs))"
        using entity_props starts_with_trimEnd by blast
      with e(1) shape show ?thesis
        by (auto simp: list_ex_iff)
    qed
    with tail shape show ?thesis by simp
  qed
qed

lemma amp_escaped_trim: "amp_escaped s \<Longrightarrow> amp_escaped (trim s)"
  by (simp add: trim_def trimStart_def amp_escaped_dropWhile amp_escaped_trimEnd)

lemma trimmed_trim: "trimmed (trim s)"
proof -
  define t where "t = dropWhile is_ws s"
  define u where "u = dropWhile is_ws (rev t)"
  have tr: "trim s = rev u"
    by (simp add: trim_def trimStart_def trimEnd_def t_def u_def)
  show ?thesis
  proof (cases "u = []")
    case True
    then show ?thesis by (simp add: tr trimmed_def)
  next
    case False
    then have l: "\<not> is_ws (hd u)"
      unfolding u_def by (metis hd_dropWhile)
    from False have tne: "t \<noteq> []"
      unfolding u_def by auto
    then have ht: "\<not> is_ws (hd t)"
      unfolding t_def by (metis hd_dropWhile)
    obtain p where p: "rev t = p @ u"
      unfolding u_def by (metis takeWhile_dropWhile_id)
    then have "t = rev u @ rev p"
      by (metis rev_append rev_rev_ident)
    with False have "hd (rev u) = hd t"
      by simp
    with l ht False show ?thesis
      by (simp add: tr trimmed_def hd_rev last_rev)
  qed
qed

lemma trim_keeps: "s \<noteq> [] \<Longrightarrow> \<not> is_ws (hd s) \<Longrightarrow> \<not> is_ws (last s) \<Longrightarrow> trim s = s"
  by (cases s) (simp_all add: trim_def trimStart_def trimEnd_keeps)

lemma trim_trailing_space:
  "s \<noteq> [] \<Longrightarrow> \<not> is_ws (hd s) \<Longrightarrow> \<not> is_ws (last s) \<Longrightarrow> trim (s @ [0x20]) = s"
proof -
  assume a: "s \<noteq> []" "\<not> is_ws (hd s)" "\<not> is_ws (last s)"
  then have "trimStart (s @ [0x20]) = s @ [0x20]"
    by (cases s) (simp_all add: trimStart_def)
  moreover have "trimEnd (s @ [0x20]) = s"
    using a by (simp add: trimEnd_append trimEnd_keeps is_ws_def)
  ultimately show ?thesis
    by (simp add: trim_def)
qed

lemma trim_all_ws:
  assumes "\<forall>c\<in>set s. is_ws c"
  shows "trim s = []"
proof -
  from assms have d: "dropWhile is_ws s = []"
    by (simp add: dropWhile_eq_Nil_conv)
  show ?thesis
    unfolding trim_def trimStart_def d by simp
qed

lemma trim_spaces: "trim (replicate n 0x20) = []"
  by (rule trim_all_ws) (simp add: is_ws_def)

lemma trim_trimmed:
  assumes "trimmed s"
  shows "trim s = s"
proof (cases "s = []")
  case True
  then show ?thesis by (simp add: trim_def trimStart_def)
next
  case False
  with assms show ?thesis by (simp add: trimmed_def trim_keeps)
qed

lemma sanitizeMessage_props:
  "trimmed (sanitizeMessage v) \<and> no_markup (sanitizeMessage v) \<and> amp_escaped (sanitizeMessage v)"
proof (cases v)
  case (JStr s)
  then show ?thesis
    by (simp add: sanitizeMessage_string trimmed_trim no_markup_trim no_markup_escape_chain
        amp_escaped_trim amp_escaped_escape_chain)
qed (simp_all add: sanitizeMessage_def trimmed_def no_markup_def)

lemma sanitize_script:
  "sanitizeMessage (JStr (ascii ''<script>x</script>'')) = ascii ''&lt;script&gt;x&lt;&#x2F;script&gt;''"
  by (simp add: sanitizeMessage_def ascii_def replace_g_def trim_def trimStart_def
        trimEnd_def is_ws_def)

section \<open>The event store\<close>

lemma isValidTenant_iff:
  "isValidTenant t \<longleftrightarrow> t = JStr (ascii ''tenant_a'') \<or> t = JStr (ascii ''tenant_b'')"
  by (cases t) (auto simp: isValidTenant_def config_def ascii_def)

lemma tenant_a_valid: "isValidTenant (JStr (ascii ''tenant_a''))"
  by (simp add: isValidTenant_iff)

lemma tenant_b_valid: "isValidTenant (JStr (ascii ''tenant_b''))"
  by (simp add: isValidTenant_iff)

lemma tenants_differ: "ascii ''tenant_a'' \<noteq> ascii ''tenant_b''"
  by (simp add: ascii_def)

lemma init_tenantEvents:
  "tenantEvents init_state = [JStr (ascii ''tenant_a'') \<mapsto> [], JStr (ascii ''tenant_b'') \<mapsto> []]"
  by (simp add: init_state_def config_def)

lemma well_formed_init: "well_formed init_state"
  by (auto simp: well_formed_def init_tenantEvents isValidTenant_iff)

lemma capped_init: "capped init_state"
  by (auto simp: capped_def init_tenantEvents split: if_splits)

lemma addEvent_take:
  "addEvent s t ev =
     (if \<not> isValidTenant t then Inl (InvalidTenant t)
      else case tenantEvents s t of
             None \<Rightarrow> Inl TypeError
           | Some evs \<Rightarrow>
               Inr (s\<lparr>tenantEvents :=
                      (tenantEvents s)(t \<mapsto> take MAX_EVENTS_PER_TENANT (ev # evs))\<rparr>))"
  by (simp add: addEvent_def Let_def split: option.splits)

lemma addEvent_Inr:
  "addEvent s t ev = Inr s1 \<longleftrightarrow>
     isValidTenant t \<and>
     (\<exists>evs. tenantEvents s t = Some evs \<and>
        s1 = s\<lparr>tenantEvents := (tenantEvents s)(t \<mapsto> take MAX_EVENTS_PER_TENANT (ev # evs))\<rparr>)"
  by (auto simp: addEvent_take split: option.splits)

lemma clearTenantEvents_Inr:
  "clearTenantEvents s t = Inr s1 \<longleftrightarrow>
     isValidTenant t \<and> s1 = s\<lparr>tenantEvents := (tenantEvents s)(t \<mapsto> [])\<rparr>"
  by (auto simp: clearTenantEvents_def)

lemma createEvent_Inr:
  "createEvent s t m uuid now = Inr (ev, s1) \<longleftrightarrow>
     isValidTenant t \<and> typeof m = ''string'' \<and> str_of m \<noteq> [] \<and>
     length (str_of m) \<le> maxEventMessageLength config \<and>
     ev = mk_event t (m, uuid, now) \<and>
     (\<exists>evs. tenantEvents s t = Some evs \<and>
        s1 = s\<lparr>tenantEvents := (tenantEvents s)(t \<mapsto> take MAX_EVENTS_PER_TENANT (ev # evs)),
               emitted := emitted s @ [(t, ev)]\<rparr>)"
  by (cases m) (auto simp: createEvent_def addEvent_take mk_event_def Let_def split: option.splits)

lemma step_tenantEvents:
  "tenantEvents (step s c) = tenantEvents s \<or>
   (\<exists>t evs. isValidTenant t \<and> length evs \<le> MAX_EVENTS_PER_TENANT \<and>
      tenantEvents (step s c) = (tenantEvents s)(t \<mapsto> evs))"
proof -
  have upd: "?thesis"
    if "isValidTenant t" "tenantEvents (step s c) = (tenantEvents s)(t \<mapsto> take MAX_EVENTS_PER_TENANT evs)"
    for t evs
  proof -
    have "length (take MAX_EVENTS_PER_TENANT evs) \<le> MAX_EVENTS_PER_TENANT"
      by simp
    with that show ?thesis by blast
  qed
  show ?thesis
  proof (cases c)
    case (AddEvent t ev)
    show ?thesis
    proof (cases "addEvent s t ev")
      case (Inl e)
      with AddEvent show ?thesis by simp
    next
      case (Inr s1)
      then obtain evs where "isValidTenant t"
        "tenantEvents s1 = (tenantEvents s)(t \<mapsto> take MAX_EVENTS_PER_TENANT (ev # evs))"
        by (auto simp: addEvent_Inr)
      with AddEvent Inr show ?thesis
        by (intro upd [of t "ev # evs"]) simp_all
    qed
  next
    case (ClearTenantEvents t)
    show ?thesis
    proof (cases "clearTenantEvents s t")
      case (Inl e)
      with ClearTenantEvents show ?thesis by simp
    next
      case (Inr s1)
      then have "isValidTenant t"
        "tenantEvents s1 = (tenantEvents s)(t \<mapsto> take MAX_EVENTS_PER_TENANT [])"
        by (auto simp: clearTenantEvents_Inr)
      with ClearTenantEvents Inr show ?thesis
        by (intro upd [of t "[]"]) simp_all
    qed
  next
    case (CreateEvent t m uuid now)
    show ?thesis
    proof (cases "createEvent s t m uuid now")
      case (Inl e)
      with CreateEvent show ?thesis by simp
    next
      case (Inr p)
      obtain ev s1 where p: "p = (ev, s1)" by (cases p)
      with Inr obtain evs where "isValidTenant t"
        "tenantEvents s1 = (tenantEvents s)(t \<mapsto> take MAX_EVENTS_PER_TENANT (ev # evs))"
        by (auto simp: createEvent_Inr)
      with CreateEvent Inr p show ?thesis
        by (intro upd [of t "ev # evs"]) simp_all
    qed
  qed
qed

lemma well_formed_step: "well_formed s \<Longrightarrow> well_formed (step s c)"
  using step_tenantEvents [of s c] by (auto simp: well_formed_def)

lemma capped_step: "capped s \<Longrightarrow> capped (step s c)"
  using step_tenantEvents [of s c] by (auto simp: capped_def split: if_splits)

lemma run_snoc: "run s (calls @ [c]) = step (run s calls) c"
  by (simp add: run_def)

lemma well_formed_run: "well_formed s \<Longrightarrow> well_formed (run s calls)"
  by (induction calls rule: rev_induct) (simp_all add: run_def well_formed_step)

lemma capped_run: "capped s \<Longrightarrow> capped (run s calls)"
  by (induction calls rule: rev_induct) (simp_all add: run_def capped_step)

lemma getEventCount_Some:
  "isValidTenant t \<Longrightarrow> tenantEvents s t = Some evs \<Longrightarrow> getEventCount s t = Inr (length evs)"
  by (simp add: getEventCount_def)

lemma getEventCount_bounded:
  assumes "well_formed s" "capped s"
  shows "\<exists>n. getEventCount s t = Inr n \<and> n \<le> MAX_EVENTS_PER_TENANT"
proof (cases "isValidTenant t")
  case True
  with assms(1) obtain evs where "tenantEvents s t = Some evs"
    by (auto simp: well_formed_def)
  with True assms(2) show ?thesis
    by (auto simp: getEventCount_def capped_def)
next
  case False
  then show ?thesis by (simp add: getEventCount_def)
qed

lemma take_append_take: "take n (xs @ take n ys) = take n (xs @ ys)"
  by (simp add: min_def)

lemma createAll_log:
  "createAll s t reqs = Inr (evs, s1) \<Longrightarrow> tenantEvents s t = Some old \<Longrightarrow>
   length old \<le> MAX_EVENTS_PER_TENANT \<Longrightarrow>
     evs = map (mk_event t) reqs \<and>
     tenantEvents s1 t = Some (take MAX_EVENTS_PER_TENANT (rev evs @ old)) \<and>
     (\<forall>t'. t' \<noteq> t \<longrightarrow> tenantEvents s1 t' = tenantEvents s t')"
proof (induction reqs arbitrary: s old evs)
  case Nil
  then show ?case by simp
next
  case (Cons r reqs)
  obtain m uuid now where r: "r = (m, uuid, now)" by (cases r)
  from Cons.prems(1) r obtain ev s2 evs2 where
    c: "createEvent s t m uuid now = Inr (ev, s2)" and
    rest: "createAll s2 t reqs = Inr (evs2, s1)" and evs: "evs = ev # evs2"
    by (auto split: sum.splits)
  from c Cons.prems(2) have ev: "ev = mk_event t r" and
    log2: "tenantEvents s2 t = Some (take MAX_EVENTS_PER_TENANT (ev # old))" and
    other2: "\<forall>t'. t' \<noteq> t \<longrightarrow> tenantEvents s2 t' = tenantEvents s t'"
    by (auto simp: createEvent_Inr r)
  have "length (take MAX_EVENTS_PER_TENANT (ev # old)) \<le> MAX_EVENTS_PER_TENANT"
    by simp
  from Cons.IH [OF rest log2 this] have ih:
    "evs2 = map (mk_event t) reqs"
    "tenantEvents s1 t = Some (take MAX_EVENTS_PER_TENANT (rev evs2 @ take MAX_EVENTS_PER_TENANT (ev # old)))"
    "\<forall>t'. t' \<noteq> t \<longrightarrow> tenantEvents s1 t' = tenantEvents s2 t'"
    by simp_all
  show ?case
    using ih other2 by (simp add: evs ev take_append_take)
qed

lemma createAll_valid:
  "createAll s t reqs = Inr (evs, s1) \<Longrightarrow> reqs \<noteq> [] \<Longrightarrow> isValidTenant t"
  by (cases reqs) (auto simp: createEvent_Inr split: sum.splits)

lemma createEvent_succeeds:
  assumes "isValidTenant t" "tenantEvents s t = Some old" "acceptable m"
  shows "\<exists>s1. createEvent s t m uuid now = Inr (mk_event t (m, uuid, now), s1)"
  using assms by (simp add: createEvent_Inr acceptable_def)

lemma createAll_succeeds:
  "isValidTenant t \<Longrightarrow> tenantEvents s t = Some old \<Longrightarrow>
   \<forall>r\<in>set reqs. acceptable (fst r) \<Longrightarrow> \<exists>evs s1. createAll s t reqs = Inr (evs, s1)"
proof (induction reqs arbitrary: s old)
  case Nil
  then show ?case by simp
next
  case (Cons r reqs)
  obtain m uuid now where r: "r = (m, uuid, now)" by (cases r)
  with Cons.prems have "acceptable m" by simp
  with Cons.prems(1,2) obtain s2 where
    c: "createEvent s t m uuid now = Inr (mk_event t (m, uuid, now), s2)"
    using createEvent_succeeds by blast
  then obtain old2 where "tenantEvents s2 t = Some old2"
    by (auto simp: createEvent_Inr)
  with Cons.IH [of s2 old2] Cons.prems obtain evs s1 where
    "createAll s2 t reqs = Inr (evs, s1)"
    by auto
  with c r show ?case by simp
qed

lemma set_slice0_subset: "set (slice0 xs e) \<subseteq> set xs"
  by (simp add: slice0_def Let_def set_take_subset)

lemma getEvents_subset:
  "getEvents s t limit = Inr out \<Longrightarrow> tenantEvents s t = Some evs \<Longrightarrow> set out \<subseteq> set evs"
  using set_slice0_subset [of evs]
  by (auto simp: getEvents_def Let_def split: if_splits js_limit.splits)

lemma getEvents_returns:
  "isValidTenant t \<Longrightarrow> tenantEvents s t = Some evs \<Longrightarrow> \<exists>out. getEvents s t limit = Inr out"
  by (cases limit) (simp_all add: getEvents_def)

lemma getEvents_positive:
  "isValidTenant t \<Longrightarrow> tenantEvents s t = Some evs \<Longrightarrow> 1 \<le> n \<Longrightarrow>
     getEvents s t (LimitNum n) = Inr (take (nat n) evs)"
  by (simp add: getEvents_def slice0_def Let_def min_def take_all_iff)

lemma getEvents_unlimited:
  "isValidTenant t \<Longrightarrow> tenantEvents s t = Some evs \<Longrightarrow>
     getEvents s t (LimitNum 0) = Inr evs \<and> getEvents s t LimitNull = Inr evs \<and>
     getEvents s t LimitUndefined = Inr evs"
  by (simp add: getEvents_def)

lemma event_id_mk_event: "map event_id (map (mk_event t) reqs) = map (\<lambda>(m, uuid, now). uuid) reqs"
  by (induction reqs) (auto simp: mk_event_def)

lemma message_mk_event:
  "map message (map (mk_event t) reqs) = map (\<lambda>(m, uuid, now). trim (str_of m)) reqs"
  by (induction reqs) (auto simp: mk_event_def)

lemma reachable_log:
  assumes "isValidTenant t"
  shows "\<exists>old. tenantEvents (run init_state calls) t = Some old \<and> length old \<le> MAX_EVENTS_PER_TENANT"
proof -
  have "well_formed (run init_state calls)" "capped (run init_state calls)"
    by (simp_all add: well_formed_run well_formed_init capped_run capped_init)
  with assms show ?thesis
    by (auto simp: well_formed_def capped_def)
qed

lemma acceptable_m: "acceptable (JStr (ascii ''m''))"
  by (simp add: acceptable_def ascii_def config_def)

lemma slice0_length: "slice0 xs (int (length xs)) = xs"
  by (simp add: slice0_def)

lemma getEventStats_value:
  assumes "tenantEvents s (JStr (ascii ''tenant_a'')) = Some ea"
    and "tenantEvents s (JStr (ascii ''tenant_b'')) = Some eb"
  shows "getEventStats s =
     Inr \<lparr>totalEvents = length ea + length eb,
          tenantStats = [ascii ''tenant_a'' \<mapsto> length ea, ascii ''tenant_b'' \<mapsto> length eb]\<rparr>"
proof -
  have ca: "getEventCount s (JStr (ascii ''tenant_a'')) = Inr (length ea)"
    using assms(1) by (simp add: getEventCount_Some tenant_a_valid)
  have cb: "getEventCount s (JStr (ascii ''tenant_b'')) = Inr (length eb)"
    using assms(2) by (simp add: getEventCount_Some tenant_b_valid)
  have sup: "getSupportedTenants = [ascii ''tenant_a'', ascii ''tenant_b'']"
    by (simp add: getSupportedTenants_def config_def)
  show ?thesis
    by (simp add: getEventStats_def sup ca cb)
qed

lemma createEvent_value:
  assumes "isValidTenant t" "tenantEvents s t = Some old" "acceptable m"
  shows "createEvent s t m uuid now =
     Inr (mk_event t (m, uuid, now),
          s\<lparr>tenantEvents :=
               (tenantEvents s)(t \<mapsto> take MAX_EVENTS_PER_TENANT (mk_event t (m, uuid, now) # old)),
             emitted := emitted s @ [(t, mk_event t (m, uuid, now))]\<rparr>)"
  using assms by (simp add: createEvent_Inr acceptable_def)

lemma two_events_log:
  "tenantEvents two_events (JStr (ascii ''tenant_a'')) = Some [ev2, ev1]"
proof -
  let ?a = "JStr (ascii ''tenant_a'')"
  have acc: "acceptable (JStr (ascii ''m1''))" "acceptable (JStr (ascii '' m2 ''))"
    by (simp_all add: acceptable_def ascii_def config_def)
  have tr: "trim (ascii ''m1'') = ascii ''m1''" "trim (ascii '' m2 '') = ascii ''m2''"
    by (simp_all add: trim_def trimStart_def trimEnd_def ascii_def is_ws_def)
  have ia: "tenantEvents init_state ?a = Some []"
    by (simp add: init_tenantEvents tenants_differ)
  show ?thesis
    unfolding two_events_def run_def
    by (simp add: createEvent_value [OF tenant_a_valid] ia acc mk_event_def tr
        MAX_EVENTS_PER_TENANT_def ev1_def ev2_def)
qed

lemma one_event_log: "tenantEvents one_event (JStr (ascii ''tenant_a'')) = Some [ev1]"
proof -
  let ?a = "JStr (ascii ''tenant_a'')"
  have acc: "acceptable (JStr (ascii ''m1''))"
    by (simp add: acceptable_def ascii_def config_def)
  have tr: "trim (ascii ''m1'') = ascii ''m1''"
    by (simp add: trim_def trimStart_def trimEnd_def ascii_def is_ws_def)
  have ia: "tenantEvents init_state ?a = Some []"
    by (simp add: init_tenantEvents tenants_differ)
  show ?thesis
    unfolding one_event_def run_def
    by (simp add: createEvent_value [OF tenant_a_valid] ia acc mk_event_def tr
        MAX_EVENTS_PER_TENANT_def ev1_def)
qed

lemma get_prop_message_only: "get_prop (message_only m) (ascii ''message'') = m"
  by (simp add: message_only_def)

lemma truthy_message_only: "truthy (message_only m)"
  by (simp add: message_only_def)

section \<open>The claims\<close>

text \<open>
  Claim C1 as stated fails: \<open>createEvent\<close> does not escape. Called with the message
  \<open><script>x</script>\<close> for tenant_a it succeeds, and the event it returns and stores has
  that very message, literal \<open><\<close>, \<open>>\<close> and \<open>/\<close> included.
\<close>

theorem createEvent_keeps_markup_counterexample:
  "isValidTenant (JStr (ascii ''tenant_a'')) \<and>
   map_sum id (message \<circ> fst)
     (createEvent init_state (JStr (ascii ''tenant_a'')) (JStr (ascii ''<script>x</script>''))
        (ascii ''id1'') (ascii ''t1'')) = Inr (ascii ''<script>x</script>'') \<and>
   map_sum id (map message) (getEvents script_event (JStr (ascii ''tenant_a'')) LimitNull) =
     Inr [ascii ''<script>x</script>''] \<and>
   \<not> no_markup (ascii ''<script>x</script>'')"
proof -
  let ?a = "JStr (ascii ''tenant_a'')"
  let ?m = "JStr (ascii ''<script>x</script>'')"
  have acc: "acceptable ?m"
    by (simp add: acceptable_def ascii_def config_def)
  have tr: "trim (ascii ''<script>x</script>'') = ascii ''<script>x</script>''"
    by (simp add: trim_def trimStart_def trimEnd_def ascii_def is_ws_def)
  have ia: "tenantEvents init_state ?a = Some []"
    by (simp add: init_tenantEvents tenants_differ)
  note c = createEvent_value [OF tenant_a_valid ia acc, of "ascii ''id1''" "ascii ''t1''"]
  have 1: "map_sum id (message \<circ> fst) (createEvent init_state ?a ?m (ascii ''id1'') (ascii ''t1''))
      = Inr (ascii ''<script>x</script>'')"
    by (simp add: c mk_event_def tr)
  have "tenantEvents script_event ?a =
      Some [mk_event ?a (?m, ascii ''id1'', ascii ''t1'')]"
    unfolding script_event_def run_def by (simp add: c MAX_EVENTS_PER_TENANT_def)
  then have 2: "map_sum id (map message) (getEvents script_event ?a LimitNull) =
     Inr [ascii ''<script>x</script>'']"
    by (simp add: getEvents_def tenant_a_valid mk_event_def tr)
  have 3: "\<not> no_markup (ascii ''<script>x</script>'')"
    by (simp add: no_markup_def ascii_def)
  from tenant_a_valid 1 2 3 show ?thesis by blast
qed

text \<open>
  Claim C1, amended. The escaping is \<open>sanitizeMessage\<close>'s, which the controller applies to
  the raw message before it calls \<open>createEvent\<close>. For every valid tenant, when
  \<open>createEvent\<close> succeeds on \<open>sanitizeMessage raw\<close>, the message of the event is
  \<open>sanitizeMessage raw\<close> itself, it has no literal \<open><\<close>, \<open>>\<close>, \<open>"\<close>, \<open>'\<close> or \<open>/\<close>, every \<open>&\<close>
  in it starts one of the six entities, and the event is stored at index 0 of the tenant's
  array. For the raw message \<open><script>x</script>\<close> the sanitized text is
  \<open>&lt;script&gt;x&lt;&#x2F;script&gt;\<close>.
\<close>

theorem createEvent_of_sanitized_message:
  "(isValidTenant t \<and> createEvent s t (JStr (sanitizeMessage raw)) uuid now = Inr (ev, s1) \<longrightarrow>
      message ev = sanitizeMessage raw \<and> no_markup (message ev) \<and> amp_escaped (message ev) \<and>
      (\<exists>older. getEvents s1 t LimitNull = Inr (ev # older))) \<and>
   sanitizeMessage (JStr (ascii ''<script>x</script>'')) =
     ascii ''&lt;script&gt;x&lt;&#x2F;script&gt;''"
  (is "(?pre \<longrightarrow> ?post) \<and> ?script")
proof (rule conjI)
  show "?pre \<longrightarrow> ?post"
  proof (rule impI)
    assume pre: ?pre
    then obtain old where ev: "ev = mk_event t (JStr (sanitizeMessage raw), uuid, now)" and
      log: "tenantEvents s1 t = Some (take MAX_EVENTS_PER_TENANT (ev # old))"
      by (auto simp: createEvent_Inr)
    from ev have msg: "message ev = sanitizeMessage raw"
      using sanitizeMessage_props [of raw] by (simp add: mk_event_def trim_trimmed)
    have "take MAX_EVENTS_PER_TENANT (ev # old) = ev # take 999 old"
      by (simp add: MAX_EVENTS_PER_TENANT_def take_Cons')
    with log pre have "getEvents s1 t LimitNull = Inr (ev # take 999 old)"
      by (simp add: getEvents_def)
    with msg sanitizeMessage_props [of raw] show ?post
      by simp
  qed
next
  show ?script
    by (rule sanitize_script)
qed

theorem createEvent_of_sanitized_message_witness:
  "\<exists>ev s1.
     isValidTenant (JStr (ascii ''tenant_a'')) \<and>
     createEvent init_state (JStr (ascii ''tenant_a''))
       (JStr (sanitizeMessage (JStr (ascii ''<script>x</script>'')))) (ascii ''id1'') (ascii ''t1'')
       = Inr (ev, s1) \<and>
     message ev = ascii ''&lt;script&gt;x&lt;&#x2F;script&gt;'' \<and>
     no_markup (message ev) \<and> amp_escaped (message ev) \<and>
     (\<exists>older. getEvents s1 (JStr (ascii ''tenant_a'')) LimitNull = Inr (ev # older))"
proof -
  let ?a = "JStr (ascii ''tenant_a'')"
  let ?raw = "JStr (ascii ''<script>x</script>'')"
  have acc: "acceptable (JStr (sanitizeMessage ?raw))"
    by (simp add: sanitize_script) (simp add: acceptable_def ascii_def config_def)
  have ia: "tenantEvents init_state ?a = Some []"
    by (simp add: init_tenantEvents tenants_differ)
  from createEvent_succeeds [OF tenant_a_valid ia acc] obtain ev s1 where
    c: "createEvent init_state ?a (JStr (sanitizeMessage ?raw)) (ascii ''id1'') (ascii ''t1'') =
      Inr (ev, s1)"
    by blast
  from createEvent_of_sanitized_message [of ?a init_state ?raw "ascii ''id1''" "ascii ''t1''" ev s1]
    tenant_a_valid c
  have p: "message ev = sanitizeMessage ?raw" "no_markup (message ev)" "amp_escaped (message ev)"
      "\<exists>older. getEvents s1 ?a LimitNull = Inr (ev # older)"
    by blast+
  from p(1) have "message ev = ascii ''&lt;script&gt;x&lt;&#x2F;script&gt;''"
    by (simp only: sanitize_script)
  with tenant_a_valid c p show ?thesis by blast
qed

text \<open>
  Claim C2 at the input of three spaces: \<open>createEvent\<close> tests emptiness before it trims,
  so the call for tenant_a succeeds, the event has the empty message, it is stored and the
  count becomes 1. \<open>validateEventData\<close> on the same message reports "Message cannot be
  empty".
\<close>

theorem createEvent_whitespace_only_stored:
  "isValidTenant (JStr (ascii ''tenant_a'')) \<and>
   trim (ascii ''   '') = [] \<and>
   map_sum id (message \<circ> fst)
     (createEvent init_state (JStr (ascii ''tenant_a'')) (JStr (ascii ''   ''))
        (ascii ''id1'') (ascii ''t1'')) = Inr [] \<and>
   map_sum id (map message) (getEvents blank_event (JStr (ascii ''tenant_a'')) LimitNull) = Inr [[]] \<and>
   getEventCount blank_event (JStr (ascii ''tenant_a'')) = Inr 1 \<and>
   errors (validateEventData (message_only (JStr (ascii ''   '')))) = [MessageEmpty]"
proof -
  let ?a = "JStr (ascii ''tenant_a'')"
  let ?m = "JStr (ascii ''   '')"
  have acc: "acceptable ?m"
    by (simp add: acceptable_def ascii_def config_def)
  have tr: "trim (ascii ''   '') = []"
    by (simp add: trim_def trimStart_def trimEnd_def ascii_def is_ws_def)
  have ia: "tenantEvents init_state ?a = Some []"
    by (simp add: init_tenantEvents tenants_differ)
  note c = createEvent_value [OF tenant_a_valid ia acc, of "ascii ''id1''" "ascii ''t1''"]
  have 1: "map_sum id (message \<circ> fst) (createEvent init_state ?a ?m (ascii ''id1'') (ascii ''t1''))
      = Inr []"
    by (simp add: c mk_event_def tr)
  have log: "tenantEvents blank_event ?a = Some [mk_event ?a (?m, ascii ''id1'', ascii ''t1'')]"
    unfolding blank_event_def run_def by (simp add: c MAX_EVENTS_PER_TENANT_def)
  then have 2: "map_sum id (map message) (getEvents blank_event ?a LimitNull) = Inr [[]]"
    by (simp add: getEvents_def tenant_a_valid mk_event_def tr)
  from log have 3: "getEventCount blank_event ?a = Inr 1"
    by (simp add: getEventCount_Some tenant_a_valid)
  have ne: "ascii ''   '' \<noteq> []" "length (ascii ''   '') \<le> 500"
    by (simp_all add: ascii_def)
  have 4: "errors (validateEventData (message_only ?m)) = [MessageEmpty]"
    using ne
    by (simp add: validateEventData_def get_prop_message_only truthy_message_only tr config_def)
  from tenant_a_valid tr 1 2 3 4 show ?thesis by blast
qed

theorem createEvent_whitespace_only_stored_witness:
  "truthy (JStr (ascii ''   '')) \<and> typeof (JStr (ascii ''   '')) = ''string'' \<and>
   length (str_of (JStr (ascii ''   ''))) \<le> maxEventMessageLength config \<and>
   getEventCount blank_event (JStr (ascii ''tenant_a'')) = Inr 1 \<and>
   map_sum id (map message) (getEvents blank_event (JStr (ascii ''tenant_a'')) LimitNull) = Inr [[]]"
  using createEvent_whitespace_only_stored by (simp add: ascii_def config_def)

text \<open>
  Claim C3 at the input of a candidate whose message is 501 spaces. Both the length check
  and the check for emptiness after trimming apply to it: it is longer than the bound and
  it trims to the empty string. \<open>validateEventData\<close> reaches the second check only in the
  \<open>else\<close> branch of the first, so it reports the length error alone and "Message cannot be
  empty" is not among the errors, although the errors are gathered in an array and the
  test suite asks that several be collected. For a message of 501 times "a", to which the
  length check alone applies, the result is \<open>isValid = False\<close> with the length error.
\<close>

theorem validateEventData_blank_too_long_one_error:
  "maxEventMessageLength config < length (replicate 501 (0x20 :: 16 word)) \<and>
   length (trim (replicate 501 0x20)) = 0 \<and>
   validateEventData (message_only (JStr (replicate 501 0x20))) =
     \<lparr>isValid = False, errors = [MessageTooLong 500]\<rparr> \<and>
   MessageEmpty \<notin> set (errors (validateEventData (message_only (JStr (replicate 501 0x20))))) \<and>
   length (errors (validateEventData (message_only (JStr (replicate 501 0x20))))) = 1 \<and>
   validateEventData (message_only (JStr (replicate 501 0x61))) =
     \<lparr>isValid = False, errors = [MessageTooLong 500]\<rparr>"
  by (simp add: validateEventData_def get_prop_message_only truthy_message_only trim_spaces
      config_def)

theorem validateEventData_blank_too_long_one_error_witness:
  "truthy (message_only (JStr (replicate 501 0x20))) \<and>
   truthy (JStr (replicate 501 0x20)) \<and>
   typeof (JStr (replicate 501 0x20)) = ''string'' \<and>
   500 < length (str_of (JStr (replicate 501 0x20))) \<and>
   trim (str_of (JStr (replicate 501 0x20))) = [] \<and>
   errors (validateEventData (message_only (JStr (replicate 501 0x20)))) = [MessageTooLong 500]"
proof -
  have guards: "truthy (message_only (JStr (replicate 501 0x20)))"
    "truthy (JStr (replicate 501 0x20))"
    "typeof (JStr (replicate 501 0x20)) = ''string''"
    "500 < length (str_of (JStr (replicate 501 0x20)))"
    "trim (str_of (JStr (replicate 501 0x20))) = []"
    by (simp_all add: truthy_message_only trim_spaces)
  from validateEventData_blank_too_long_one_error
  have "errors (validateEventData (message_only (JStr (replicate 501 0x20)))) =
      [MessageTooLong 500]"
    by simp
  with guards show ?thesis by blast
qed

text \<open>
  Claim C4. In every state reached from the constructor's by calls of \<open>addEvent\<close>,
  \<open>clearTenantEvents\<close> and \<open>createEvent\<close>, the count of every tenant is at most 1000.
  After 1001 successful creations in a row for one tenant, with the ids \<open>uuidv4\<close> gave
  pairwise different, the count is 1000 and the event created first is in no result of
  \<open>getEvents\<close> or \<open>getEventsByTenant\<close>, whatever the limit.
\<close>

theorem log_capped_oldest_evicted:
  "(\<exists>n. getEventCount (run init_state calls) t = Inr n \<and> n \<le> 1000) \<and>
   (createAll (run init_state calls) t reqs = Inr (evs, s1) \<and> length reqs = 1001 \<and>
    distinct (map (\<lambda>(m, uuid, now). uuid) reqs) \<longrightarrow>
      getEventCount s1 t = Inr 1000 \<and>
      (\<exists>out. getEvents s1 t limit = Inr out \<and> hd evs \<notin> set out) \<and>
      (\<exists>out. getEventsByTenant s1 t limit = Inr out \<and> hd evs \<notin> set out))"
  (is "?bounded \<and> (?creates \<longrightarrow> ?evicted)")
proof (rule conjI)
  have "well_formed (run init_state calls)" "capped (run init_state calls)"
    by (simp_all add: well_formed_run well_formed_init capped_run capped_init)
  then show ?bounded
    using getEventCount_bounded [of "run init_state calls" t]
    by (simp add: MAX_EVENTS_PER_TENANT_def)
next
  show "?creates \<longrightarrow> ?evicted"
  proof (rule impI)
    assume a: ?creates
    then have ne: "reqs \<noteq> []" by auto
    with a have valid: "isValidTenant t"
      using createAll_valid by blast
    then obtain old where old: "tenantEvents (run init_state calls) t = Some old"
      "length old \<le> MAX_EVENTS_PER_TENANT"
      using reachable_log by blast
    from a old have evs: "evs = map (mk_event t) reqs" and
      log: "tenantEvents s1 t = Some (take MAX_EVENTS_PER_TENANT (rev evs @ old))"
      using createAll_log by blast+
    from evs a have len: "length evs = 1001" by simp
    then obtain e rest where shape: "evs = e # rest" "length rest = 1000"
      by (cases evs) auto
    from a evs have "distinct (map event_id evs)"
      by (simp add: event_id_mk_event del: map_map)
    then have "distinct evs"
      by (simp add: distinct_map)
    with shape have fresh: "e \<notin> set rest" by simp
    have stored: "tenantEvents s1 t = Some (rev rest)"
      using log shape by (simp add: MAX_EVENTS_PER_TENANT_def)
    from valid stored shape have cnt: "getEventCount s1 t = Inr 1000"
      by (simp add: getEventCount_Some)
    have absent: "\<exists>out. getEvents s1 t l = Inr out \<and> hd evs \<notin> set out" for l
    proof -
      from valid stored obtain out where out: "getEvents s1 t l = Inr out"
        using getEvents_returns by blast
      from out stored have "set out \<subseteq> set (rev rest)"
        by (rule getEvents_subset)
      with fresh shape out show ?thesis by auto
    qed
    show ?evicted
      using cnt absent by (simp add: getEventsByTenant_def)
  qed
qed

theorem log_capped_oldest_evicted_witness:
  "\<exists>evs s1.
     createAll (run init_state []) (JStr (ascii ''tenant_a''))
       (map (\<lambda>i. (JStr (ascii ''m''), replicate i 0x61, [])) [0..<1001]) = Inr (evs, s1) \<and>
     length (map (\<lambda>i. (JStr (ascii ''m''), replicate i (0x61 :: 16 word), [] :: js_string)) [0..<1001]) = 1001 \<and>
     distinct (map (\<lambda>(m, uuid, now). uuid)
       (map (\<lambda>i. (JStr (ascii ''m''), replicate i (0x61 :: 16 word), [] :: js_string)) [0..<1001])) \<and>
     getEventCount s1 (JStr (ascii ''tenant_a'')) = Inr 1000 \<and>
     (\<exists>out. getEvents s1 (JStr (ascii ''tenant_a'')) LimitNull = Inr out \<and> hd evs \<notin> set out)"
proof -
  let ?reqs = "map (\<lambda>i. (JStr (ascii ''m''), replicate i (0x61 :: 16 word), [] :: js_string)) [0..<1001]"
  let ?a = "JStr (ascii ''tenant_a'')"
  have init: "run init_state [] = init_state"
    by (simp add: run_def)
  have "tenantEvents init_state ?a = Some []"
    by (simp add: init_tenantEvents tenants_differ)
  moreover have "\<forall>r\<in>set ?reqs. acceptable (fst r)"
    by (auto simp: acceptable_m)
  ultimately obtain evs s1 where c: "createAll (run init_state []) ?a ?reqs = Inr (evs, s1)"
    using createAll_succeeds [OF tenant_a_valid] init by metis
  have l: "length ?reqs = 1001" by simp
  have "inj_on (\<lambda>i. replicate i (0x61 :: 16 word)) (set [0..<1001])"
    by (rule inj_onI) (metis length_replicate)
  then have d: "distinct (map (\<lambda>(m, uuid, now). uuid) ?reqs)"
    by (simp add: distinct_map comp_def)
  from log_capped_oldest_evicted [of "[]" ?a ?reqs evs s1 LimitNull] c l d
  have "getEventCount s1 ?a = Inr 1000 \<and>
     (\<exists>out. getEvents s1 ?a LimitNull = Inr out \<and> hd evs \<notin> set out)"
    by blast
  with c l d show ?thesis by blast
qed

text \<open>
  Claim C5. For a valid tenant whose array is empty, after \<open>N \<le> 1000\<close> successful
  creations the count is \<open>N\<close> and \<open>getEvents\<close> with limit \<open>N\<close> returns all \<open>N\<close> events, the one
  created last at index 0 and the others in reverse order of creation; each stored message
  is the trimmed input. From the constructor's state, creating "m1", "m2", "m3" for
  tenant_a gives messages "m3", "m2" for limit 2, count 3 for tenant_a and 0 for tenant_b.
\<close>

theorem creates_counted_newest_first:
  "(isValidTenant t \<and> tenantEvents s t = Some [] \<and> createAll s t reqs = Inr (evs, s1) \<and>
    length reqs \<le> 1000 \<longrightarrow>
      getEventCount s1 t = Inr (length reqs) \<and>
      getEvents s1 t (LimitNum (int (length reqs))) = Inr (rev evs) \<and>
      map message evs = map (\<lambda>(m, uuid, now). trim (str_of m)) reqs \<and>
      (reqs \<noteq> [] \<longrightarrow> hd (rev evs) = mk_event t (last reqs))) \<and>
   (\<exists>evs3 s3.
      createAll init_state (JStr (ascii ''tenant_a''))
        [(JStr (ascii ''m1''), u1, n1), (JStr (ascii ''m2''), u2, n2),
         (JStr (ascii ''m3''), u3, n3)] = Inr (evs3, s3) \<and>
      map_sum id (map message) (getEvents s3 (JStr (ascii ''tenant_a'')) (LimitNum 2)) =
        Inr [ascii ''m3'', ascii ''m2''] \<and>
      getEventCount s3 (JStr (ascii ''tenant_a'')) = Inr 3 \<and>
      getEventCount s3 (JStr (ascii ''tenant_b'')) = Inr 0)"
  (is "(?pre \<longrightarrow> ?post) \<and> ?scenario")
proof (rule conjI)
  show "?pre \<longrightarrow> ?post"
  proof (rule impI)
    assume pre: ?pre
    then have evs: "evs = map (mk_event t) reqs" and
      log: "tenantEvents s1 t = Some (take MAX_EVENTS_PER_TENANT (rev evs @ []))"
      using createAll_log [of s t reqs evs s1 "[]"] by simp_all
    from pre evs have stored: "tenantEvents s1 t = Some (rev evs)"
      using log by (simp add: MAX_EVENTS_PER_TENANT_def)
    from pre stored evs have cnt: "getEventCount s1 t = Inr (length reqs)"
      by (simp add: getEventCount_Some)
    have lst: "getEvents s1 t (LimitNum (int (length reqs))) = Inr (rev evs)"
    proof (cases "reqs = []")
      case True
      with pre stored evs show ?thesis
        by (simp add: getEvents_unlimited)
    next
      case False
      then have "1 \<le> int (length reqs)"
        by (cases reqs) simp_all
      with pre stored have "getEvents s1 t (LimitNum (int (length reqs))) =
          Inr (take (nat (int (length reqs))) (rev evs))"
        by (simp add: getEvents_positive)
      with evs show ?thesis by simp
    qed
    have newest: "hd (rev evs) = mk_event t (last reqs)" if "reqs \<noteq> []"
      using that evs by (simp add: hd_rev last_map)
    from cnt lst newest evs show ?post
      by (simp add: message_mk_event del: map_map)
  qed
next
  let ?a = "JStr (ascii ''tenant_a'')"
  let ?b = "JStr (ascii ''tenant_b'')"
  let ?reqs = "[(JStr (ascii ''m1''), u1, n1), (JStr (ascii ''m2''), u2, n2),
         (JStr (ascii ''m3''), u3, n3)]"
  have ia: "tenantEvents init_state ?a = Some []" and ib: "tenantEvents init_state ?b = Some []"
    by (simp_all add: init_tenantEvents tenants_differ)
  have "\<forall>r\<in>set ?reqs. acceptable (fst r)"
    by (simp add: acceptable_def ascii_def config_def)
  with ia obtain evs3 s3 where c: "createAll init_state ?a ?reqs = Inr (evs3, s3)"
    using createAll_succeeds [OF tenant_a_valid] by blast
  with ia have evs3: "evs3 = map (mk_event ?a) ?reqs" and
    log: "tenantEvents s3 ?a = Some (take MAX_EVENTS_PER_TENANT (rev evs3 @ []))" and
    other: "\<forall>t'. t' \<noteq> ?a \<longrightarrow> tenantEvents s3 t' = tenantEvents init_state t'"
    using createAll_log [of init_state ?a ?reqs evs3 s3 "[]"] by simp_all
  have tr: "trim (ascii ''m1'') = ascii ''m1''" "trim (ascii ''m2'') = ascii ''m2''"
    "trim (ascii ''m3'') = ascii ''m3''"
    by (simp_all add: trim_def trimStart_def trimEnd_def ascii_def is_ws_def)
  from log evs3 have stored: "tenantEvents s3 ?a = Some (rev evs3)"
    by (simp add: MAX_EVENTS_PER_TENANT_def)
  have "getEvents s3 ?a (LimitNum 2) = Inr (take (nat 2) (rev evs3))"
    using stored by (simp add: getEvents_positive tenant_a_valid)
  then have l2: "map_sum id (map message) (getEvents s3 ?a (LimitNum 2)) =
      Inr [ascii ''m3'', ascii ''m2'']"
    by (simp add: evs3 mk_event_def tr)
  have ca: "getEventCount s3 ?a = Inr 3"
    using stored by (simp add: getEventCount_Some tenant_a_valid evs3)
  have "?b \<noteq> ?a"
    by (simp add: ascii_def)
  with other ib have "tenantEvents s3 ?b = Some []"
    by metis
  then have cb: "getEventCount s3 ?b = Inr 0"
    by (simp add: getEventCount_Some tenant_b_valid)
  from c l2 ca cb show ?scenario by blast
qed

theorem creates_counted_newest_first_witness:
  "\<exists>evs s1.
     isValidTenant (JStr (ascii ''tenant_b'')) \<and>
     tenantEvents init_state (JStr (ascii ''tenant_b'')) = Some [] \<and>
     createAll init_state (JStr (ascii ''tenant_b''))
       [(JStr (ascii ''x''), ascii ''id1'', ascii ''t1''),
        (JStr (ascii ''y''), ascii ''id2'', ascii ''t2'')] = Inr (evs, s1) \<and>
     getEventCount s1 (JStr (ascii ''tenant_b'')) = Inr 2 \<and>
     getEvents s1 (JStr (ascii ''tenant_b'')) (LimitNum 2) = Inr (rev evs) \<and>
     hd (rev evs) =
       mk_event (JStr (ascii ''tenant_b'')) (JStr (ascii ''y''), ascii ''id2'', ascii ''t2'')"
proof -
  let ?b = "JStr (ascii ''tenant_b'')"
  let ?reqs = "[(JStr (ascii ''x''), ascii ''id1'', ascii ''t1''),
        (JStr (ascii ''y''), ascii ''id2'', ascii ''t2'')]"
  have ib: "tenantEvents init_state ?b = Some []"
    by (simp add: init_tenantEvents)
  have "\<forall>r\<in>set ?reqs. acceptable (fst r)"
    by (simp add: acceptable_def ascii_def config_def)
  with ib obtain evs s1 where c: "createAll init_state ?b ?reqs = Inr (evs, s1)"
    using createAll_succeeds [OF tenant_b_valid] by blast
  have "length ?reqs \<le> 1000" by simp
  with creates_counted_newest_first [of ?b init_state ?reqs evs s1] tenant_b_valid ib c
  have "getEventCount s1 ?b = Inr (length ?reqs) \<and>
      getEvents s1 ?b (LimitNum (int (length ?reqs))) = Inr (rev evs) \<and>
      hd (rev evs) = mk_event ?b (last ?reqs)"
    by blast
  then have "getEventCount s1 ?b = Inr 2 \<and>
      getEvents s1 ?b (LimitNum 2) = Inr (rev evs) \<and>
      hd (rev evs) = mk_event ?b (JStr (ascii ''y''), ascii ''id2'', ascii ''t2'')"
    by simp
  with tenant_b_valid ib c show ?thesis by blast
qed

text \<open>
  Claim C6. \<open>createEvent\<close> throws "Message exceeds maximum length of 500 characters"
  exactly when the tenant is valid, the message is a string and its length, before any
  trimming, is over 500 (the tenant and the type are tested first). A non-empty string
  of at most 500 code units is accepted for a valid tenant, whatever it trims to, and the
  event carries the trimmed text.
\<close>

theorem createEvent_too_long_iff:
  "(createEvent s t m uuid now = Inl (MessageTooLong k) \<longleftrightarrow>
      isValidTenant t \<and> typeof m = ''string'' \<and> 500 < length (str_of m) \<and> k = 500) \<and>
   (isValidTenant t \<and> tenantEvents s t = Some old \<and> str \<noteq> [] \<and> length str \<le> 500 \<longrightarrow>
      (\<exists>s1. createEvent s t (JStr str) uuid now =
         Inr (\<lparr>event_id = uuid, tenant_id = t, message = trim str, timestamp = now\<rparr>, s1)))"
  (is "?iff \<and> ?accepted")
proof (rule conjI)
  show ?iff
    by (cases m)
      (auto simp: createEvent_def addEvent_take config_def Let_def split: option.splits)
next
  show ?accepted
    by (simp add: createEvent_Inr mk_event_def config_def)
qed

theorem createEvent_too_long_iff_witness:
  "isValidTenant (JStr (ascii ''tenant_a'')) \<and>
   typeof (JStr (replicate 500 0x61 @ [0x20])) = ''string'' \<and>
   500 < length (str_of (JStr (replicate 500 0x61 @ [0x20]))) \<and>
   length (trim (replicate 500 0x61 @ [0x20])) = 500 \<and>
   createEvent init_state (JStr (ascii ''tenant_a'')) (JStr (replicate 500 0x61 @ [0x20]))
     (ascii ''id1'') (ascii ''t1'') = Inl (MessageTooLong 500) \<and>
   tenantEvents init_state (JStr (ascii ''tenant_a'')) = Some [] \<and>
   ascii '' a '' \<noteq> [] \<and> length (ascii '' a '') \<le> 500 \<and>
   (\<exists>s1. createEvent init_state (JStr (ascii ''tenant_a'')) (JStr (ascii '' a ''))
      (ascii ''id1'') (ascii ''t1'') =
      Inr (\<lparr>event_id = ascii ''id1'', tenant_id = JStr (ascii ''tenant_a''),
            message = ascii ''a'', timestamp = ascii ''t1''\<rparr>, s1))"
proof -
  let ?a = "JStr (ascii ''tenant_a'')"
  let ?long = "replicate 500 (0x61 :: 16 word) @ [0x20]"
  have ia: "tenantEvents init_state ?a = Some []"
    by (simp add: init_tenantEvents tenants_differ)
  have len: "500 < length (str_of (JStr ?long))" "typeof (JStr ?long) = ''string''"
    by simp_all
  have r: "replicate 500 (0x61 :: 16 word) \<noteq> []"
    "hd (replicate 500 (0x61 :: 16 word)) = 0x61" "last (replicate 500 (0x61 :: 16 word)) = 0x61"
    by (simp_all add: hd_replicate last_replicate)
  have "trim ?long = replicate 500 0x61"
    by (rule trim_trailing_space) (simp_all add: r is_ws_def)
  then have tl: "length (trim ?long) = 500"
    by simp
  have sh: "ascii '' a '' \<noteq> []" "length (ascii '' a '') \<le> 500"
    "trim (ascii '' a '') = ascii ''a''"
    by (simp_all add: trim_def trimStart_def trimEnd_def ascii_def is_ws_def)
  note t = createEvent_too_long_iff [of init_state ?a "JStr ?long" "ascii ''id1''"
      "ascii ''t1''" 500 "[]" "ascii '' a ''"]
  from t len tenant_a_valid have long: "createEvent init_state ?a (JStr ?long)
     (ascii ''id1'') (ascii ''t1'') = Inl (MessageTooLong 500)"
    by blast
  from t tenant_a_valid ia sh(1,2) have "\<exists>s1. createEvent init_state ?a (JStr (ascii '' a ''))
      (ascii ''id1'') (ascii ''t1'') =
      Inr (\<lparr>event_id = ascii ''id1'', tenant_id = ?a,
            message = trim (ascii '' a ''), timestamp = ascii ''t1''\<rparr>, s1)"
    by blast
  then have short: "\<exists>s1. createEvent init_state ?a (JStr (ascii '' a ''))
      (ascii ''id1'') (ascii ''t1'') =
      Inr (\<lparr>event_id = ascii ''id1'', tenant_id = ?a,
            message = ascii ''a'', timestamp = ascii ''t1''\<rparr>, s1)"
    by (simp only: sh(3))
  from tenant_a_valid len tl long ia sh(1,2) short show ?thesis
    by blast
qed

text \<open>
  Claim C7 as stated fails at limit 0: with one event stored for tenant_a,
  \<open>getEventsByTenant\<close> with limit 0 returns one event, which is more than 0.
\<close>

theorem getEventsByTenant_zero_limit_counterexample:
  "map_sum id length (getEventsByTenant one_event (JStr (ascii ''tenant_a'')) (LimitNum 0)) = Inr 1 \<and>
   \<not> (1::int) \<le> 0"
  using getEvents_unlimited [OF tenant_a_valid one_event_log]
  by (simp add: getEventsByTenant_def)

text \<open>
  Claim C7, amended. For every valid tenant and every limit \<open>n \<ge> 1\<close>,
  \<open>getEventsByTenant\<close> (and \<open>getEvents\<close>) returns the first \<open>n\<close> events of the tenant's array,
  which is kept newest first: at most \<open>n\<close> events, and all of them when fewer are stored.
  With the limit left out, \<open>getEventsByTenant\<close> returns the first 50.
\<close>

theorem getEventsByTenant_positive_limit:
  "isValidTenant t \<Longrightarrow> tenantEvents s t = Some evs \<Longrightarrow> 1 \<le> n \<Longrightarrow>
     getEventsByTenant s t (LimitNum n) = Inr (take (nat n) evs) \<and>
     getEvents s t (LimitNum n) = Inr (take (nat n) evs) \<and>
     int (length (take (nat n) evs)) \<le> n \<and>
     length (take (nat n) evs) = min (nat n) (length evs) \<and>
     getEventsByTenant s t LimitUndefined = Inr (take 50 evs)"
  by (auto simp: getEventsByTenant_def getEvents_positive)

theorem getEventsByTenant_positive_limit_witness:
  "isValidTenant (JStr (ascii ''tenant_a'')) \<and>
   tenantEvents two_events (JStr (ascii ''tenant_a'')) = Some [ev2, ev1] \<and> (1::int) \<le> 1 \<and>
   getEventsByTenant two_events (JStr (ascii ''tenant_a'')) (LimitNum 1) = Inr [ev2] \<and>
   getEventsByTenant two_events (JStr (ascii ''tenant_a'')) LimitUndefined = Inr [ev2, ev1]"
  using getEventsByTenant_positive_limit [OF tenant_a_valid two_events_log, of 1]
    tenant_a_valid two_events_log by simp

text \<open>
  Claim C8. In every state reached from the constructor's, \<open>getEventStats\<close> returns; its
  \<open>tenantStats\<close> has exactly the configured tenants as keys, each with the value of
  \<open>getEventCount\<close> for that tenant, and \<open>totalEvents\<close> is the sum of these values.
\<close>

theorem getEventStats_sum_of_counts:
  "\<exists>st. getEventStats (run init_state calls) = Inr st \<and>
     dom (tenantStats st) = set getSupportedTenants \<and>
     totalEvents st = (\<Sum>t\<in>dom (tenantStats st). the (tenantStats st t)) \<and>
     (\<forall>t\<in>set getSupportedTenants.
        \<exists>n. tenantStats st t = Some n \<and> getEventCount (run init_state calls) (JStr t) = Inr n)"
proof -
  let ?s = "run init_state calls"
  obtain ea where ea: "tenantEvents ?s (JStr (ascii ''tenant_a'')) = Some ea"
    using reachable_log [OF tenant_a_valid] by blast
  obtain eb where eb: "tenantEvents ?s (JStr (ascii ''tenant_b'')) = Some eb"
    using reachable_log [OF tenant_b_valid] by blast
  let ?st = "\<lparr>totalEvents = length ea + length eb,
          tenantStats = [ascii ''tenant_a'' \<mapsto> length ea, ascii ''tenant_b'' \<mapsto> length eb]\<rparr>"
  have v: "getEventStats ?s = Inr ?st"
    using ea eb by (rule getEventStats_value)
  have sup: "getSupportedTenants = [ascii ''tenant_a'', ascii ''tenant_b'']"
    by (simp add: getSupportedTenants_def config_def)
  have d: "dom (tenantStats ?st) = {ascii ''tenant_a'', ascii ''tenant_b''}"
    by auto
  have ca: "getEventCount ?s (JStr (ascii ''tenant_a'')) = Inr (length ea)"
    using ea by (simp add: getEventCount_Some tenant_a_valid)
  have cb: "getEventCount ?s (JStr (ascii ''tenant_b'')) = Inr (length eb)"
    using eb by (simp add: getEventCount_Some tenant_b_valid)
  have sum: "totalEvents ?st = (\<Sum>t\<in>dom (tenantStats ?st). the (tenantStats ?st t))"
    unfolding d using tenants_differ by simp
  have each: "\<forall>t\<in>set getSupportedTenants.
        \<exists>n. tenantStats ?st t = Some n \<and> getEventCount ?s (JStr t) = Inr n"
    using ca cb tenants_differ by (simp add: sup)
  have "dom (tenantStats ?st) = set getSupportedTenants"
    using d by (simp add: sup)
  with v sum each show ?thesis by blast
qed

theorem getEventStats_sum_of_counts_witness:
  "\<exists>st. getEventStats (run init_state
       [CreateEvent (JStr (ascii ''tenant_a'')) (JStr (ascii ''m1'')) (ascii ''id1'') (ascii ''t1''),
        CreateEvent (JStr (ascii ''tenant_a'')) (JStr (ascii '' m2 '')) (ascii ''id2'') (ascii ''t2'')])
       = Inr st \<and>
     ascii ''tenant_a'' \<in> set getSupportedTenants \<and>
     dom (tenantStats st) = set getSupportedTenants \<and>
     totalEvents st = (\<Sum>t\<in>dom (tenantStats st). the (tenantStats st t)) \<and>
     tenantStats st (ascii ''tenant_a'') = Some 2"
proof -
  let ?calls = "[CreateEvent (JStr (ascii ''tenant_a'')) (JStr (ascii ''m1'')) (ascii ''id1'') (ascii ''t1''),
        CreateEvent (JStr (ascii ''tenant_a'')) (JStr (ascii '' m2 '')) (ascii ''id2'') (ascii ''t2'')]"
  have mem: "ascii ''tenant_a'' \<in> set getSupportedTenants"
    by (simp add: getSupportedTenants_def config_def)
  have cnt: "getEventCount (run init_state ?calls) (JStr (ascii ''tenant_a'')) = Inr 2"
    using two_events_log by (simp add: two_events_def getEventCount_Some tenant_a_valid)
  from getEventStats_sum_of_counts [of ?calls] obtain st where
    st: "getEventStats (run init_state ?calls) = Inr st"
      "dom (tenantStats st) = set getSupportedTenants"
      "totalEvents st = (\<Sum>t\<in>dom (tenantStats st). the (tenantStats st t))"
      "\<forall>t\<in>set getSupportedTenants.
        \<exists>n. tenantStats st t = Some n \<and> getEventCount (run init_state ?calls) (JStr t) = Inr n"
    by blast
  from st(4) mem cnt have "tenantStats st (ascii ''tenant_a'') = Some 2"
    by fastforce
  with st mem show ?thesis by blast
qed

text \<open>
  Claim C9. For every valid tenant, \<open>getEvents\<close> with limit 0 returns the whole array of
  the tenant: 0 is falsy, so the branch without \<open>slice\<close> is taken. The same holds through
  \<open>getEventsByTenant\<close>.
\<close>

theorem getEvents_zero_limit_returns_all:
  "isValidTenant t \<Longrightarrow> tenantEvents s t = Some evs \<Longrightarrow>
     getEvents s t (LimitNum 0) = Inr evs \<and> getEventsByTenant s t (LimitNum 0) = Inr evs"
  by (simp add: getEvents_unlimited getEventsByTenant_def)

theorem getEvents_zero_limit_returns_all_witness:
  "isValidTenant (JStr (ascii ''tenant_a'')) \<and>
   tenantEvents two_events (JStr (ascii ''tenant_a'')) = Some [ev2, ev1] \<and>
   getEvents two_events (JStr (ascii ''tenant_a'')) (LimitNum 0) = Inr [ev2, ev1] \<and>
   getEventsByTenant two_events (JStr (ascii ''tenant_a'')) (LimitNum 0) = Inr [ev2, ev1]"
  using getEvents_zero_limit_returns_all [OF tenant_a_valid two_events_log]
    tenant_a_valid two_events_log by simp

text \<open>
  Claim C10. \<open>sanitizeMessage\<close> returns on every input. A value that is not a string
  gives the empty string. For a string, the six substitutions act as one pass over the
  input (each code unit becomes \<open>esc1\<close> of itself, so the entities written for \<open>&\<close> are
  not escaped again), and the result is trimmed, has no literal \<open><\<close>, \<open>>\<close>, \<open>"\<close>, \<open>'\<close> or
  \<open>/\<close>, and every \<open>&\<close> in it is the start of one of the six entities.
\<close>

theorem sanitizeMessage_total_escaped:
  "(typeof v \<noteq> ''string'' \<longrightarrow> sanitizeMessage v = []) \<and>
   sanitizeMessage (JStr s) = trim (concat (map esc1 s)) \<and>
   trimmed (sanitizeMessage (JStr s)) \<and>
   no_markup (sanitizeMessage (JStr s)) \<and>
   amp_escaped (sanitizeMessage (JStr s))"
proof (intro conjI impI)
  assume "typeof v \<noteq> ''string''"
  then show "sanitizeMessage v = []"
    by (rule sanitizeMessage_non_string)
next
  show "sanitizeMessage (JStr s) = trim (concat (map esc1 s))"
    by (simp add: sanitizeMessage_string escape_chain_single_pass)
next
  show "trimmed (sanitizeMessage (JStr s))"
    by (simp add: sanitizeMessage_string trimmed_trim)
next
  show "no_markup (sanitizeMessage (JStr s))"
    by (simp add: sanitizeMessage_string no_markup_trim no_markup_escape_chain)
next
  show "amp_escaped (sanitizeMessage (JStr s))"
    by (simp add: sanitizeMessage_string amp_escaped_trim amp_escaped_escape_chain)
qed

theorem sanitizeMessage_total_escaped_witness:
  "typeof (JNum 123) \<noteq> ''string'' \<and> sanitizeMessage (JNum 123) = [] \<and>
   sanitizeMessage (JStr (ascii '' <b>&amp; ''))  = ascii ''&lt;b&gt;&amp;amp;'' \<and>
   sanitizeMessage (JStr (ascii '' <b>&amp; '')) \<noteq> [] \<and>
   trimmed (sanitizeMessage (JStr (ascii '' <b>&amp; ''))) \<and>
   no_markup (sanitizeMessage (JStr (ascii '' <b>&amp; ''))) \<and>
   amp_escaped (sanitizeMessage (JStr (ascii '' <b>&amp; '')))"
proof -
  have v: "sanitizeMessage (JStr (ascii '' <b>&amp; ''))  = ascii ''&lt;b&gt;&amp;amp;''"
    by (simp add: sanitizeMessage_def ascii_def replace_g_def trim_def trimStart_def
        trimEnd_def is_ws_def)
  have ne: "ascii ''&lt;b&gt;&amp;amp;'' \<noteq> []"
    by (simp add: ascii_def)
  have nonstr: "typeof (JNum 123) \<noteq> ''string''"
    by simp
  note t = sanitizeMessage_total_escaped [of "JNum 123" "ascii '' <b>&amp; ''"]
  from t nonstr v ne show ?thesis
    by metis
qed

end
